theory Spec2Isabelle
  imports Complex_Main "HOL-Library.AList" "HOL-Library.Word"
begin

section \<open>Data model\<close>

text \<open>
  Exceptions of the Python source are values. Only the exception classes that the
  modelled functions can raise are listed; \<open>Fault\<close> stands for whatever a callable
  handed to the tuner or the dispatcher raises.
\<close>

datatype error =
    ValueError
  | KeyError
  | ZeroDivisionError
  | AttributeError
  | OSError string
  | JSONDecodeError
  | Fault string

text \<open>
  A timing table is a Python \<open>dict\<close> from row length to mean duration. Insertion order
  is kept, so it is an association list; durations are Python floats, read here as
  reals (the tuner only adds, divides by the repeat count and compares them).
\<close>

type_synonym timing_table = "(int \<times> real) list"

section \<open>tuner.py: crossover search\<close>

text \<open>
  \<^verbatim>\<open>
  for n in sorted(twopass_times.keys()):
      if pebay_times[n] < twopass_times[n]:
          return n
  return max(twopass_times.keys())
  \<close>
  \<open>scan_lengths\<close> is the \<open>for\<close> loop over the sorted keys: \<open>Inr (Some n)\<close> is the
  early \<open>return n\<close>, \<open>Inr None\<close> is the loop running to its end. The subscript
  \<open>pebay_times[n]\<close> is evaluated first and raises \<open>KeyError\<close> on a missing key.
\<close>

fun scan_lengths :: "timing_table \<Rightarrow> timing_table \<Rightarrow> int list \<Rightarrow> error + int option" where
  "scan_lengths twopass_times pebay_times [] = Inr None"
| "scan_lengths twopass_times pebay_times (n # ns) =
     (case map_of pebay_times n of
        None \<Rightarrow> Inl KeyError
      | Some p \<Rightarrow>
         (case map_of twopass_times n of
            None \<Rightarrow> Inl KeyError
          | Some t \<Rightarrow>
             if p < t then Inr (Some n)
             else scan_lengths twopass_times pebay_times ns))"

text \<open>\<open>max\<close> of an empty sequence raises \<open>ValueError\<close>.\<close>

definition py_max :: "int list \<Rightarrow> error + int" where
  "py_max xs = (if xs = [] then Inl ValueError else Inr (Max (set xs)))"

definition find_crossover :: "timing_table \<Rightarrow> timing_table \<Rightarrow> error + int" where
  "find_crossover twopass_times pebay_times =
     (case scan_lengths twopass_times pebay_times (sort (map fst twopass_times)) of
        Inl e \<Rightarrow> Inl e
      | Inr (Some n) \<Rightarrow> Inr n
      | Inr None \<Rightarrow> py_max (map fst twopass_times))"

section \<open>tuner.py: the environment\<close>

text \<open>
  The tuner reads a clock, reads and writes one file, prints, and calls the two
  callables it is given. The world record holds what it can observe and change:
  \<^item> \<open>config_file\<close>: what is at \<open>CONFIG_PATH\<close>;
  \<^item> \<open>disk\<close>: how a write to \<open>CONFIG_PATH\<close> will go;
  \<^item> \<open>fingerprint\<close>: the digest \<open>_system_fingerprint()\<close> computes here (SHA-256 over
    platform, machine, processor, Python version and user; these come from the
    interpreter's \<open>platform\<close>, \<open>getpass\<close> and \<open>hashlib\<close>);
  \<^item> \<open>clock\<close>, \<open>ticks\<close>: the successive readings of \<open>time.perf_counter()\<close> and how
    many have been taken;
  \<^item> \<open>stdout\<close>: the lines printed so far;
  \<^item> \<open>calls\<close>: the rows handed so far to a benchmarked callable, in call order.
\<close>

datatype json =
    JNull
  | JBool bool
  | JInt int
  | JFloat real
  | JStr string
  | JList "json list"
  | JDict "(string \<times> json) list"

text \<open>
  The file is absent, present but not openable (\<open>open\<close> raises \<open>OSError\<close>), present
  with content \<open>json.load\<close> rejects, or present with a JSON document (held as the
  object \<open>json.load\<close> builds, so a \<open>JDict\<close> read from it has each key once).
\<close>

datatype file_state = Missing | Unreadable string | Garbage | Document json

text \<open>
  A write succeeds, or \<open>open(CONFIG_PATH, "w")\<close> raises, or the file is opened (and so
  truncated) and \<open>json.dump\<close> raises before the document is complete.
\<close>

datatype write_outcome = WriteOk | OpenFails string | DumpFails string

record world =
  config_file :: file_state
  disk :: write_outcome
  fingerprint :: string
  clock :: "nat \<Rightarrow> real"
  ticks :: nat
  stdout :: "string list"
  calls :: "int list list"

type_synonym 'r callable = "int list \<Rightarrow> error + 'r"

definition system_fingerprint :: "world \<Rightarrow> string" where
  "system_fingerprint w = fingerprint w"

definition perf_counter :: "world \<Rightarrow> real \<times> world" where
  "perf_counter w = (clock w (ticks w), w\<lparr>ticks := Suc (ticks w)\<rparr>)"

definition print_line :: "string \<Rightarrow> world \<Rightarrow> world" where
  "print_line s w = w\<lparr>stdout := stdout w @ [s]\<rparr>"

section \<open>tuner.py: the benchmark harness\<close>

text \<open>
  \<open>range(start, stop, step)\<close>. Python raises \<open>ValueError\<close> for \<open>step = 0\<close>; the one
  call site passes the literal 32, and the model gives the empty list there.
\<close>

definition py_range :: "int \<Rightarrow> int \<Rightarrow> int \<Rightarrow> int list" where
  "py_range start stop step =
     (if 0 < step
      then map (\<lambda>k. start + step * int k) [0..<nat ((stop - start + step - 1) div step)]
      else if step < 0
      then map (\<lambda>k. start + step * int k) [0..<nat ((start - stop - step - 1) div (- step))]
      else [])"

text \<open>\<^verbatim>\<open>row = [i % 128 - 64 for i in range(n)]\<close>\<close>

definition synthetic_row :: "int \<Rightarrow> int list" where
  "synthetic_row n = map (\<lambda>i. i mod 128 - 64) (py_range 0 n 1)"

text \<open>
  \<^verbatim>\<open>
  for _ in range(repeat):
      start = time.perf_counter()
      func(row)
      durations.append(time.perf_counter() - start)
  \<close>
  An exception of \<open>func\<close> is not caught and ends the benchmark.
\<close>

fun time_calls ::
  "'r callable \<Rightarrow> int list \<Rightarrow> nat \<Rightarrow> real list \<Rightarrow> world \<Rightarrow> error + (real list \<times> world)" where
  "time_calls func row 0 durations w = Inr (durations, w)"
| "time_calls func row (Suc k) durations w =
     (let (start, w1) = perf_counter w;
          w2 = w1\<lparr>calls := calls w1 @ [row]\<rparr>
      in case func row of
           Inl e \<Rightarrow> Inl e
         | Inr _ \<Rightarrow>
            (let (stop, w3) = perf_counter w2
             in time_calls func row k (durations @ [stop - start]) w3))"

text \<open>
  \<^verbatim>\<open>
  for n in row_lengths:
      row = ...; durations = []
      ...
      results[n] = sum(durations) / repeat
  \<close>
  \<open>range(repeat)\<close> is empty for \<open>repeat \<le> 0\<close>, and the division raises for
  \<open>repeat = 0\<close>. The assignment \<open>results[n] = v\<close> replaces the value of a key that is
  there and appends a new key otherwise, which is \<open>AList.update\<close>.
\<close>

fun benchmark_loop ::
  "'r callable \<Rightarrow> int list \<Rightarrow> int \<Rightarrow> timing_table \<Rightarrow> world \<Rightarrow> error + (timing_table \<times> world)" where
  "benchmark_loop func [] repeat results w = Inr (results, w)"
| "benchmark_loop func (n # ns) repeat results w =
     (case time_calls func (synthetic_row n) (nat repeat) [] w of
        Inl e \<Rightarrow> Inl e
      | Inr (durations, w') \<Rightarrow>
         if repeat = 0 then Inl ZeroDivisionError
         else benchmark_loop func ns repeat
                (AList.update n (sum_list durations / real_of_int repeat) results) w')"

definition run_benchmark ::
  "'r callable \<Rightarrow> int list \<Rightarrow> int \<Rightarrow> world \<Rightarrow> error + (timing_table \<times> world)" where
  "run_benchmark func row_lengths repeat w = benchmark_loop func row_lengths repeat [] w"

section \<open>tuner.py: the threshold cache and the tuner\<close>

text \<open>\<open>open(CONFIG_PATH, "r")\<close> followed by \<open>json.load(f)\<close>.\<close>

definition path_exists :: "file_state \<Rightarrow> bool" where
  "path_exists f = (f \<noteq> Missing)"

definition load_json :: "file_state \<Rightarrow> error + json" where
  "load_json f =
     (case f of
        Missing \<Rightarrow> Inl (OSError ''No such file or directory'')
      | Unreadable msg \<Rightarrow> Inl (OSError msg)
      | Garbage \<Rightarrow> Inl JSONDecodeError
      | Document config \<Rightarrow> Inr config)"

text \<open>
  The body of the \<open>try\<close> block:
  \<^verbatim>\<open>
  config = json.load(f)
  if config.get("system_id") == system_id and "threshold" in config:
      return config["threshold"]
  \<close>
  \<open>Inr (Some v)\<close> is \<open>return v\<close>, \<open>Inr None\<close> is the block ending without a return.
  \<open>config.get\<close> exists on a dict only (\<open>AttributeError\<close> otherwise) and gives \<open>None\<close>
  for an absent key.
\<close>

definition read_cache :: "string \<Rightarrow> file_state \<Rightarrow> error + json option" where
  "read_cache system_id f =
     (case load_json f of
        Inl e \<Rightarrow> Inl e
      | Inr config \<Rightarrow>
         (case config of
            JDict kv \<Rightarrow>
              if (case map_of kv ''system_id'' of None \<Rightarrow> JNull | Some v \<Rightarrow> v) = JStr system_id
                 \<and> map_of kv ''threshold'' \<noteq> None
              then Inr (map_of kv ''threshold'')
              else Inr None
          | _ \<Rightarrow> Inl AttributeError))"

text \<open>\<open>json.dump\<close> writes an integer key of a dict as its decimal string.\<close>

function str_of_nat :: "nat \<Rightarrow> string" where
  "str_of_nat n =
     (if n < 10 then [''0123456789'' ! n]
      else str_of_nat (n div 10) @ [''0123456789'' ! (n mod 10)])"
  by pat_completeness auto
termination
  by (relation "measure id") auto

declare str_of_nat.simps [simp del]

definition str_of_int :: "int \<Rightarrow> string" where
  "str_of_int i = (if i < 0 then CHR ''-'' # str_of_nat (nat (- i)) else str_of_nat (nat i))"

definition table_json :: "timing_table \<Rightarrow> json" where
  "table_json t = JDict (map (\<lambda>(n, d). (str_of_int n, JFloat d)) t)"

definition config_document :: "int \<Rightarrow> string \<Rightarrow> timing_table \<Rightarrow> timing_table \<Rightarrow> json" where
  "config_document threshold system_id twopass pebay =
     JDict [(''threshold'', JInt threshold), (''system_id'', JStr system_id),
            (''twopass'', table_json twopass), (''pebay'', table_json pebay)]"

definition warning_line :: "string \<Rightarrow> string" where
  "warning_line msg = ''Warning: Failed to save config file: '' @ msg"

text \<open>
  \<^verbatim>\<open>
  try:
      with open(CONFIG_PATH, "w") as f:
          json.dump({...}, f, indent=2)
  except Exception as e:
      print(f"Warning: Failed to save config file: {e}")
  \<close>
\<close>

definition save_config :: "json \<Rightarrow> world \<Rightarrow> world" where
  "save_config doc w =
     (case disk w of
        WriteOk \<Rightarrow> w\<lparr>config_file := Document doc\<rparr>
      | OpenFails msg \<Rightarrow> print_line (warning_line msg) w
      | DumpFails msg \<Rightarrow> print_line (warning_line msg) (w\<lparr>config_file := Garbage\<rparr>))"

definition row_lengths :: "int list" where
  "row_lengths = py_range 8 2049 32"

definition benchmark_banner :: string where
  "benchmark_banner = ''Running algorithm benchmarks (first use or system changed)...''"

text \<open>
  The part of \<open>get_optimal_threshold\<close> after the cache lookup: print, benchmark both
  callables over \<open>row_lengths\<close> with the default \<open>repeat = 5\<close>, find the crossover,
  save, return the threshold.
\<close>

definition benchmark_and_save ::
  "'a callable \<Rightarrow> 'b callable \<Rightarrow> string \<Rightarrow> world \<Rightarrow> error + (json \<times> world)" where
  "benchmark_and_save twopass_fn pebay_fn system_id w =
     (case run_benchmark twopass_fn row_lengths 5 (print_line benchmark_banner w) of
        Inl e \<Rightarrow> Inl e
      | Inr (twopass, w1) \<Rightarrow>
         (case run_benchmark pebay_fn row_lengths 5 w1 of
            Inl e \<Rightarrow> Inl e
          | Inr (pebay, w2) \<Rightarrow>
             (case find_crossover twopass pebay of
                Inl e \<Rightarrow> Inl e
              | Inr threshold \<Rightarrow>
                 Inr (JInt threshold,
                      save_config (config_document threshold system_id twopass pebay) w2))))"

text \<open>
  The cache lookup: it is tried when \<open>force_retune\<close> is false and the path exists, and
  \<open>except Exception: pass\<close> turns every exception of the \<open>try\<close> block into a miss.
\<close>

definition cache_lookup :: "bool \<Rightarrow> string \<Rightarrow> file_state \<Rightarrow> json option" where
  "cache_lookup force_retune system_id f =
     (if \<not> force_retune \<and> path_exists f
      then (case read_cache system_id f of
              Inl e \<Rightarrow> None
            | Inr None \<Rightarrow> None
            | Inr (Some v) \<Rightarrow> Some v)
      else None)"

definition get_optimal_threshold ::
  "'a callable \<Rightarrow> 'b callable \<Rightarrow> bool \<Rightarrow> world \<Rightarrow> error + (json \<times> world)" where
  "get_optimal_threshold twopass_fn pebay_fn force_retune w =
     (let system_id = system_fingerprint w
      in case cache_lookup force_retune system_id (config_file w) of
           Some v \<Rightarrow> Inr (v, w)
         | None \<Rightarrow> benchmark_and_save twopass_fn pebay_fn system_id w)"

section \<open>main.py: the dispatcher\<close>

text \<open>
  The two accumulators are the compiled \<open>momentcore\<close> extension, which main.py
  imports by name. The dispatcher takes the module as a parameter: a function from the
  accumulator's name and the row to the four moments, or to the exception it raises.
  Moments are Python floats, read as reals.
\<close>

datatype accumulator = compute_moments_twopass | compute_moments_pebay

type_synonym moments = "real \<times> real \<times> real \<times> real"

type_synonym momentcore = "accumulator \<Rightarrow> int list \<Rightarrow> error + moments"

type_synonym int8 = "8 word"

text \<open>\<open>row.tolist()\<close> on a row of an \<open>int8\<close> matrix gives the signed values.\<close>

definition tolist :: "int8 list \<Rightarrow> int list" where
  "tolist row = map sint row"

fun moment_at :: "moments \<Rightarrow> nat \<Rightarrow> real" where
  "moment_at (m1, m2, m3, m4) i =
     (if i = 0 then m1 else if i = 1 then m2 else if i = 2 then m3 else m4)"

text \<open>
  \<^verbatim>\<open>float(f"{value:.2f}")\<close>: the format gives the decimal numeral with two fractional
  digits nearest to the value, an exact tie going to the even last digit, and \<open>float\<close>
  reads the numeral back. Over the reals that is rounding to a multiple of 1/100.
\<close>

definition round_half_even :: "real \<Rightarrow> int" where
  "round_half_even y =
     (let f = \<lfloor>y\<rfloor>; r = y - of_int f
      in if r < 1/2 then f else if 1/2 < r then f + 1 else if even f then f else f + 1)"

definition round_half_up :: "real \<Rightarrow> real" where
  "round_half_up v = of_int (round_half_even (v * 100)) / 100"

text \<open>
  \<^verbatim>\<open>algo = compute_moments_twopass if len(row_list) < threshold else compute_moments_pebay\<close>
\<close>

definition select_algo :: "int list \<Rightarrow> int \<Rightarrow> accumulator" where
  "select_algo row_list threshold =
     (if int (length row_list) < threshold then compute_moments_twopass
      else compute_moments_pebay)"

text \<open>
  \<^verbatim>\<open>
  for i in range(4):
      results[i].append(round_half_up(row_moments[i]))
  \<close>
\<close>

definition append_moments :: "real list list \<Rightarrow> moments \<Rightarrow> real list list" where
  "append_moments results row_moments =
     foldl (\<lambda>res i. res[i := res ! i @ [round_half_up (moment_at row_moments i)]])
       results [0..<4]"

fun rows_loop ::
  "momentcore \<Rightarrow> int8 list list \<Rightarrow> int \<Rightarrow> real list list \<Rightarrow> error + real list list" where
  "rows_loop mc [] threshold results = Inr results"
| "rows_loop mc (row # data) threshold results =
     (let row_list = tolist row;
          algo = select_algo row_list threshold
      in case mc algo row_list of
           Inl e \<Rightarrow> Inl e
         | Inr row_moments \<Rightarrow> rows_loop mc data threshold (append_moments results row_moments))"

definition compute_moment_rows :: "momentcore \<Rightarrow> int8 list list \<Rightarrow> int \<Rightarrow> error + real list list" where
  "compute_moment_rows mc data threshold = rows_loop mc data threshold (replicate 4 [])"

section \<open>Specification vocabulary\<close>

text \<open>The online timing is strictly below the two-pass timing at length \<open>n\<close>.\<close>

definition pebay_faster :: "timing_table \<Rightarrow> timing_table \<Rightarrow> int \<Rightarrow> bool" where
  "pebay_faster twopass_times pebay_times n =
     (case (map_of pebay_times n, map_of twopass_times n) of
        (Some p, Some t) \<Rightarrow> p < t
      | _ \<Rightarrow> False)"


text \<open>A callable returns normally on every row the sweep generates.\<close>

definition runs_on_sweep :: "'r callable \<Rightarrow> bool" where
  "runs_on_sweep func =
     list_all (\<lambda>n. case func (synthetic_row n) of Inl e \<Rightarrow> False | Inr r \<Rightarrow> True) row_lengths"

text \<open>
  A world for concrete runs: no cache file, a working disk, a clock that advances by
  one millisecond per reading, nothing printed and nothing called yet.
\<close>

definition fresh_world :: world where
  "fresh_world =
     \<lparr>config_file = Missing, disk = WriteOk, fingerprint = ''TEST123'',
      clock = (\<lambda>i. real i / 1000), ticks = 0, stdout = [], calls = []\<rparr>"

text \<open>
  The rows one sweep hands to a callable, and the world after the banner and the two
  sweeps of a benchmark: 2 callables, 64 lengths, 5 repeats, 2 clock readings each.
\<close>

definition sweep_calls :: "int list list" where
  "sweep_calls = concat (map (\<lambda>n. replicate 5 (synthetic_row n)) row_lengths)"

definition after_benchmark :: "world \<Rightarrow> world" where
  "after_benchmark w =
     w\<lparr>ticks := ticks w + 1280,
       stdout := stdout w @ [benchmark_banner],
       calls := calls w @ sweep_calls @ sweep_calls\<rparr>"

text \<open>
  \<open>threshold\<close> is what benchmarking from world \<open>w\<close> computes: the crossover of the two
  tables that the harness measures, for the two-pass callable first.
\<close>

definition fresh_threshold ::
  "'a callable \<Rightarrow> 'b callable \<Rightarrow> world \<Rightarrow> int \<Rightarrow> timing_table \<Rightarrow> timing_table \<Rightarrow> bool" where
  "fresh_threshold twopass_fn pebay_fn w threshold twopass pebay =
     (\<exists>w1 w2. run_benchmark twopass_fn row_lengths 5 (print_line benchmark_banner w)
                 = Inr (twopass, w1)
            \<and> run_benchmark pebay_fn row_lengths 5 w1 = Inr (pebay, w2)
            \<and> find_crossover twopass pebay = Inr threshold)"

text \<open>What the dispatcher's chosen accumulator returns (or raises) on a row.\<close>

definition dispatch :: "momentcore \<Rightarrow> int \<Rightarrow> int8 list \<Rightarrow> error + moments" where
  "dispatch mc threshold row = mc (select_algo (tolist row) threshold) (tolist row)"

text \<open>
  A stand-in for the \<open>momentcore\<close> module in concrete runs: the first moment is the
  mean of the row, the second slot tells which accumulator was called (1 for two-pass,
  2 for the online one), and an empty row raises.
\<close>

definition tagged_mean :: momentcore where
  "tagged_mean algo row =
     (if row = [] then Inl (Fault ''empty row'')
      else Inr (of_int (sum_list row) / of_nat (length row),
                (case algo of compute_moments_twopass \<Rightarrow> 1 | compute_moments_pebay \<Rightarrow> 2),
                0, 0))"

section \<open>Crossover search: properties\<close>


lemma scan_lengths_no_value_error:
  "scan_lengths tw pb ns \<noteq> Inl ValueError"
  by (induction ns) (auto split: option.splits)

lemma scan_lengths_total:
  assumes "set ns \<subseteq> fst ` set tw" and "set ns \<subseteq> fst ` set pb"
  shows "\<exists>r. scan_lengths tw pb ns = Inr r"
  using assms
proof (induction ns)
  case Nil
  then show ?case by simp
next
  case (Cons n ns)
  from Cons.prems obtain p t where "map_of pb n = Some p" "map_of tw n = Some t"
    by (metis list.set_intros(1) map_of_eq_None_iff not_Some_eq subsetD)
  with Cons show ?case by auto
qed

lemma scan_lengths_Some:
  assumes "scan_lengths tw pb ns = Inr (Some n)"
  shows "\<exists>pre post p t. ns = pre @ n # post \<and> map_of pb n = Some p \<and> map_of tw n = Some t
           \<and> p < t
           \<and> (\<forall>m \<in> set pre. \<exists>p' t'. map_of pb m = Some p' \<and> map_of tw m = Some t' \<and> \<not> p' < t')"
  using assms
proof (induction ns)
  case Nil
  then show ?case by simp
next
  case (Cons a ns)
  from Cons.prems obtain p t where pt: "map_of pb a = Some p" "map_of tw a = Some t"
    by (auto split: option.splits)
  show ?case
  proof (cases "p < t")
    case True
    with Cons.prems pt have "a = n" by simp
    with pt True show ?thesis
      by (intro exI [of _ "[]"] exI [of _ ns] exI [of _ p] exI [of _ t]) auto
  next
    case False
    with Cons.prems pt have "scan_lengths tw pb ns = Inr (Some n)" by simp
    from Cons.IH [OF this] obtain pre post p' t' where
      h: "ns = pre @ n # post" "map_of pb n = Some p'" "map_of tw n = Some t'" "p' < t'"
         "\<forall>m \<in> set pre. \<exists>p' t'. map_of pb m = Some p' \<and> map_of tw m = Some t' \<and> \<not> p' < t'"
      by blast
    with pt False show ?thesis
      by (intro exI [of _ "a # pre"] exI [of _ post] exI [of _ p'] exI [of _ t']) auto
  qed
qed

lemma scan_lengths_None:
  assumes "scan_lengths tw pb ns = Inr None"
  shows "\<forall>m \<in> set ns. \<exists>p t. map_of pb m = Some p \<and> map_of tw m = Some t \<and> \<not> p < t"
  using assms
  by (induction ns) (auto split: option.splits if_splits)

lemma pebay_faster_iff:
  "pebay_faster tw pb m \<longleftrightarrow> (\<exists>p t. map_of pb m = Some p \<and> map_of tw m = Some t \<and> p < t)"
  by (auto simp: pebay_faster_def split: option.splits)


text \<open>On sorted keys, a length found by the scan is the least one where Pebay wins.\<close>

lemma scan_lengths_Some_sorted:
  assumes "scan_lengths tw pb ns = Inr (Some n)" and "sorted ns"
  shows "n \<in> set ns \<and> pebay_faster tw pb n
         \<and> (\<forall>m \<in> set ns. m < n \<longrightarrow> \<not> pebay_faster tw pb m)"
proof -
  from scan_lengths_Some [OF assms(1)] obtain pre post p t where
    h: "ns = pre @ n # post" "map_of pb n = Some p" "map_of tw n = Some t" "p < t"
       "\<forall>m \<in> set pre. \<exists>p' t'. map_of pb m = Some p' \<and> map_of tw m = Some t' \<and> \<not> p' < t'"
    by blast
  have post: "\<forall>m \<in> set post. n \<le> m"
    using assms(2) h(1) by (simp add: sorted_append)
  have "\<not> pebay_faster tw pb m" if "m \<in> set ns" "m < n" for m
  proof -
    from that h(1) post have "m \<in> set pre" by auto
    with h(5) show ?thesis by (auto simp: pebay_faster_iff)
  qed
  with h show ?thesis by (auto simp: pebay_faster_iff)
qed

lemma scan_lengths_None_faster:
  assumes "scan_lengths tw pb ns = Inr None"
  shows "\<forall>m \<in> set ns. \<not> pebay_faster tw pb m"
  using scan_lengths_None [OF assms] by (auto simp: pebay_faster_iff)

text \<open>
  Claim C1, as amended. For every pair of timing tables over the same set of row
  lengths, with at least one length, \<open>find_crossover\<close> returns a tested length \<open>n\<close>: if
  the online (Pebay) timing is strictly below the two-pass timing at some tested
  length, \<open>n\<close> is the least such length (Pebay wins at \<open>n\<close> and at no tested length
  below \<open>n\<close>); otherwise \<open>n\<close> is the largest tested length. The order in which the
  tables list their lengths plays no part.
\<close>

theorem find_crossover_first_or_largest:
  assumes "twopass_times \<noteq> []"
    and "fst ` set pebay_times = fst ` set twopass_times"
  shows "\<exists>n. find_crossover twopass_times pebay_times = Inr n
           \<and> n \<in> fst ` set twopass_times
           \<and> (if \<exists>m \<in> fst ` set twopass_times. pebay_faster twopass_times pebay_times m
              then pebay_faster twopass_times pebay_times n
                 \<and> (\<forall>m \<in> fst ` set twopass_times.
                       m < n \<longrightarrow> \<not> pebay_faster twopass_times pebay_times m)
              else n = Max (fst ` set twopass_times))"
proof -
  let ?ns = "sort (map fst twopass_times)"
  have keys: "set ?ns = fst ` set twopass_times" by simp
  have "\<exists>r. scan_lengths twopass_times pebay_times ?ns = Inr r"
    by (rule scan_lengths_total) (simp_all add: assms(2))
  then obtain r where r: "scan_lengths twopass_times pebay_times ?ns = Inr r" ..
  show ?thesis
  proof (cases r)
    case None
    with r have "\<forall>m \<in> set ?ns. \<not> pebay_faster twopass_times pebay_times m"
      using scan_lengths_None_faster by blast
    moreover have "find_crossover twopass_times pebay_times = Inr (Max (fst ` set twopass_times))"
      using r None assms(1) by (simp add: find_crossover_def py_max_def)
    moreover have "Max (fst ` set twopass_times) \<in> fst ` set twopass_times"
      using assms(1) by (intro Max_in) auto
    ultimately show ?thesis unfolding keys by simp
  next
    case (Some n)
    with r have "n \<in> set ?ns \<and> pebay_faster twopass_times pebay_times n
         \<and> (\<forall>m \<in> set ?ns. m < n \<longrightarrow> \<not> pebay_faster twopass_times pebay_times m)"
      by (intro scan_lengths_Some_sorted) simp_all
    moreover have "find_crossover twopass_times pebay_times = Inr n"
      using r Some by (simp add: find_crossover_def)
    ultimately show ?thesis unfolding keys by auto
  qed
qed

text \<open>
  The theorem at the tables of the repository's test, listed out of order: Pebay wins
  at 16 and 32, not at 8, and the threshold is 16.
\<close>

theorem find_crossover_first_or_largest_witness:
  "[(32, 8/10), (8, 5/10), (16, 6/10)] \<noteq> ([] :: timing_table)
   \<and> fst ` set [(16 :: int, 5/10 :: real), (8, 7/10), (32, 3/10)]
       = fst ` set [(32 :: int, 8/10 :: real), (8, 5/10), (16, 6/10)]
   \<and> find_crossover [(32, 8/10), (8, 5/10), (16, 6/10)] [(16, 5/10), (8, 7/10), (32, 3/10)]
       = Inr 16
   \<and> pebay_faster [(32, 8/10), (8, 5/10), (16, 6/10)] [(16, 5/10), (8, 7/10), (32, 3/10)] 16
   \<and> \<not> pebay_faster [(32, 8/10), (8, 5/10), (16, 6/10)] [(16, 5/10), (8, 7/10), (32, 3/10)] 8"
proof -
  let ?tw = "[(32, 8/10), (8, 5/10), (16, 6/10)] :: timing_table"
  let ?pb = "[(16, 5/10), (8, 7/10), (32, 3/10)] :: timing_table"
  have h1: "?tw \<noteq> []" by simp
  have h2: "fst ` set ?pb = fst ` set ?tw" by auto
  have ev: "find_crossover ?tw ?pb = Inr 16" by (simp add: find_crossover_def)
  have w16: "pebay_faster ?tw ?pb 16" by (simp add: pebay_faster_def)
  from find_crossover_first_or_largest [OF h1 h2] ev w16
  have "\<forall>m \<in> fst ` set ?tw. m < 16 \<longrightarrow> \<not> pebay_faster ?tw ?pb m"
    by (auto split: if_splits)
  then have "\<not> pebay_faster ?tw ?pb 8" by simp
  with h1 h2 ev w16 show ?thesis by blast
qed

text \<open>
  Claim C1 as stated fails on the empty pair of tables: there is no largest tested
  length, and \<open>max\<close> raises.
\<close>

theorem find_crossover_empty_counterexample:
  "find_crossover [] [] = Inl ValueError"
  by (simp add: find_crossover_def py_max_def)




section \<open>Benchmark harness: properties\<close>

lemma py_range_upto: "py_range 0 n 1 = map int [0..<nat n]"
  by (simp add: py_range_def)

lemma length_synthetic_row: "length (synthetic_row n) = nat n"
  by (simp add: synthetic_row_def py_range_upto)

lemma nth_synthetic_row: "i < nat n \<Longrightarrow> synthetic_row n ! i = int i mod 128 - 64"
  by (simp add: synthetic_row_def py_range_upto)

lemma set_synthetic_row: "set (synthetic_row n) = (\<lambda>i. int i mod 128 - 64) ` {0..<nat n}"
  by (simp add: synthetic_row_def py_range_upto image_image)

lemma synthetic_row_bounds: "set (synthetic_row n) \<subseteq> {-64..63}"
proof
  fix v assume "v \<in> set (synthetic_row n)"
  then obtain i where "v = int i mod 128 - 64" by (auto simp: set_synthetic_row)
  moreover have "0 \<le> int i mod 128" "int i mod 128 < 128" by simp_all
  ultimately show "v \<in> {-64..63}" by simp
qed

lemma synthetic_row_full:
  assumes "128 \<le> n"
  shows "set (synthetic_row n) = {-64..63}"
proof
  show "set (synthetic_row n) \<subseteq> {-64..63}" by (rule synthetic_row_bounds)
  show "{-64..63} \<subseteq> set (synthetic_row n)"
  proof
    fix v :: int assume v: "v \<in> {-64..63}"
    let ?i = "nat (v + 64)"
    from v assms have "?i < nat n" by auto
    moreover from v have "int ?i mod 128 - 64 = v" by auto
    ultimately show "v \<in> set (synthetic_row n)"
      unfolding set_synthetic_row by (intro image_eqI [of _ _ ?i]) auto
  qed
qed

lemma time_calls_fault:
  assumes "func row = Inl e"
  shows "time_calls func row (Suc k) ds w = Inl e"
  using assms by (simp add: perf_counter_def Let_def)

lemma time_calls_world:
  "time_calls func row k ds w = Inr (ds', w') \<Longrightarrow>
     w' = w\<lparr>ticks := ticks w + 2 * k, calls := calls w @ replicate k row\<rparr>
     \<and> length ds' = length ds + k"
proof (induction k arbitrary: ds w)
  case 0
  then show ?case by simp
next
  case (Suc k)
  show ?case
  proof (cases "func row")
    case (Inl e)
    with Suc.prems show ?thesis by (simp add: time_calls_fault)
  next
    case (Inr r)
    have eq: "w\<lparr>calls := calls w @ [row], ticks := Suc (Suc (ticks w))\<rparr>
                = w\<lparr>ticks := ticks w + 2, calls := calls w @ [row]\<rparr>"
      by simp
    from Suc.prems Inr
    have "time_calls func row k (ds @ [clock w (Suc (ticks w)) - clock w (ticks w)])
            (w\<lparr>calls := calls w @ [row], ticks := Suc (Suc (ticks w))\<rparr>) = Inr (ds', w')"
      by (simp add: perf_counter_def Let_def)
    then have step: "time_calls func row k (ds @ [clock w (Suc (ticks w)) - clock w (ticks w)])
            (w\<lparr>ticks := ticks w + 2, calls := calls w @ [row]\<rparr>) = Inr (ds', w')"
      by (simp only: eq)
    from Suc.IH [OF step] show ?thesis
      by (simp add: replicate_app_Cons_same)
  qed
qed

lemma time_calls_runs:
  assumes "func row = Inr r"
  shows "\<exists>ds'. time_calls func row k ds w = Inr (ds', w\<lparr>ticks := ticks w + 2 * k, calls := calls w @ replicate k row\<rparr>)"
proof -
  have "\<exists>ds' w'. time_calls func row k ds w = Inr (ds', w')"
    using assms by (induction k arbitrary: ds w) (auto simp: perf_counter_def Let_def)
  then show ?thesis using time_calls_world by blast
qed


lemma benchmark_loop_Cons_Inr:
  assumes "benchmark_loop func (n # ns) repeat results w = Inr (t, w')"
  obtains ds w1 where "time_calls func (synthetic_row n) (nat repeat) [] w = Inr (ds, w1)"
    and "repeat \<noteq> 0"
    and "benchmark_loop func ns repeat
           (AList.update n (sum_list ds / real_of_int repeat) results) w1 = Inr (t, w')"
  using assms by (auto split: sum.splits if_splits)

lemma benchmark_loop_world:
  "benchmark_loop func ns repeat results w = Inr (t, w') \<Longrightarrow>
     w' = w\<lparr>ticks := ticks w + 2 * nat repeat * length ns,
             calls := calls w @ concat (map (\<lambda>n. replicate (nat repeat) (synthetic_row n)) ns)\<rparr>"
proof (induction ns arbitrary: results w)
  case Nil
  then show ?case by simp
next
  case (Cons n ns)
  from Cons.prems obtain ds w1 where
    tc: "time_calls func (synthetic_row n) (nat repeat) [] w = Inr (ds, w1)"
    and rest: "benchmark_loop func ns repeat
           (AList.update n (sum_list ds / real_of_int repeat) results) w1 = Inr (t, w')"
    by (rule benchmark_loop_Cons_Inr)
  from time_calls_world [OF tc]
  have w1: "w1 = w\<lparr>ticks := ticks w + 2 * nat repeat,
                    calls := calls w @ replicate (nat repeat) (synthetic_row n)\<rparr>"
    by simp
  from Cons.IH [OF rest] show ?case
    by (simp add: w1 algebra_simps)
qed

lemma benchmark_loop_keys:
  "benchmark_loop func ns repeat results w = Inr (t, w') \<Longrightarrow>
     distinct (map fst results @ ns) \<Longrightarrow> map fst t = map fst results @ ns"
proof (induction ns arbitrary: results w)
  case Nil
  then show ?case by simp
next
  case (Cons n ns)
  from Cons.prems(1) obtain ds w1 where
    rest: "benchmark_loop func ns repeat
           (AList.update n (sum_list ds / real_of_int repeat) results) w1 = Inr (t, w')"
    by (rule benchmark_loop_Cons_Inr)
  let ?res = "AList.update n (sum_list ds / real_of_int repeat) results"
  from Cons.prems(2) have keys: "map fst ?res = map fst results @ [n]"
    by (simp add: update_keys)
  with Cons.prems(2) have "distinct (map fst ?res @ ns)" by auto
  from Cons.IH [OF rest this] keys show ?case by simp
qed

lemma benchmark_loop_runs:
  assumes "repeat \<noteq> 0"
    and "\<forall>n \<in> set ns. \<exists>r. func (synthetic_row n) = Inr r"
  shows "\<exists>t w'. benchmark_loop func ns repeat results w = Inr (t, w')"
  using assms(2)
proof (induction ns arbitrary: results w)
  case Nil
  then show ?case by simp
next
  case (Cons n ns)
  then obtain r where r: "func (synthetic_row n) = Inr r" by auto
  from time_calls_runs [of func "synthetic_row n" r "nat repeat" "[]" w] this obtain ds w1 where
    "time_calls func (synthetic_row n) (nat repeat) [] w = Inr (ds, w1)" by blast
  moreover from Cons obtain t w' where
    "benchmark_loop func ns repeat (AList.update n (sum_list ds / real_of_int repeat) results) w1
       = Inr (t, w')"
    by fastforce
  ultimately show ?case using assms(1) by simp
qed

lemma benchmark_loop_fault:
  assumes "func (synthetic_row n) = Inl e" and "0 < repeat"
  shows "benchmark_loop func (n # ns) repeat results w = Inl e"
proof -
  from assms(2) obtain k where "nat repeat = Suc k" by (cases "nat repeat") auto
  with assms(1) show ?thesis by (simp add: time_calls_fault)
qed

lemma row_lengths_eq: "row_lengths = map (\<lambda>k. 8 + 32 * int k) [0..<64]"
  by (simp add: row_lengths_def py_range_def)

lemma distinct_row_lengths: "distinct row_lengths"
  unfolding row_lengths_eq by (simp add: distinct_map inj_on_def)

lemma row_lengths_not_Nil: "row_lengths \<noteq> []"
  unfolding row_lengths_eq by simp

lemma length_row_lengths: "length row_lengths = 64"
  unfolding row_lengths_eq by simp

lemma sorted_row_lengths: "sorted_wrt (<) row_lengths"
  unfolding row_lengths_eq by (simp add: sorted_wrt_map sorted_wrt_iff_nth_less)

lemma set_row_lengths: "set row_lengths = {n. 8 \<le> n \<and> n \<le> 2048 \<and> (n - 8) mod 32 = 0}"
proof (rule set_eqI)
  fix n :: int
  show "n \<in> set row_lengths \<longleftrightarrow> n \<in> {n. 8 \<le> n \<and> n \<le> 2048 \<and> (n - 8) mod 32 = 0}"
  proof
    assume "n \<in> set row_lengths"
    then obtain k where "k < 64" "n = 8 + 32 * int k" by (auto simp: row_lengths_eq)
    then show "n \<in> {n. 8 \<le> n \<and> n \<le> 2048 \<and> (n - 8) mod 32 = 0}" by simp
  next
    assume "n \<in> {n. 8 \<le> n \<and> n \<le> 2048 \<and> (n - 8) mod 32 = 0}"
    then have n: "8 \<le> n" "n \<le> 2048" "(n - 8) mod 32 = 0" by simp_all
    let ?k = "nat ((n - 8) div 32)"
    from n have nonneg: "0 \<le> (n - 8) div 32" by simp
    from n have "32 * ((n - 8) div 32) = n - 8"
      by (simp add: mod_eq_0_iff_dvd)
    with nonneg have "n = 8 + 32 * int ?k" by simp
    moreover from n nonneg have "?k < 64" by simp
    ultimately show "n \<in> set row_lengths"
      unfolding row_lengths_eq set_map set_upt by (intro image_eqI [of _ _ ?k]) simp_all
  qed
qed

text \<open>
  Claim C3, as amended. For every requested row length \<open>n\<close> the benchmark harness
  generates the same synthetic row, of length \<open>n\<close>, whose \<open>i\<close>-th value is
  \<open>i mod 128 - 64\<close>: the values cycle through \<open>-64 .. 63\<close>, half of the signed 8-bit
  range, and cover all of \<open>-64 .. 63\<close> once \<open>n\<close> is at least 128. These rows are what
  the harness hands to the benchmarked callable, \<open>repeat\<close> times for each length in turn.
\<close>

theorem synthetic_row_cycle:
  "length (synthetic_row n) = nat n
   \<and> (\<forall>i < nat n. synthetic_row n ! i = int i mod 128 - 64)
   \<and> set (synthetic_row n) \<subseteq> {-64..63}
   \<and> (128 \<le> n \<longrightarrow> set (synthetic_row n) = {-64..63})
   \<and> (run_benchmark func lengths repeat w = Inr (table, w') \<longrightarrow>
        calls w' = calls w
          @ concat (map (\<lambda>n. replicate (nat repeat) (synthetic_row n)) lengths))"
proof -
  have "calls w' = calls w @ concat (map (\<lambda>n. replicate (nat repeat) (synthetic_row n)) lengths)"
    if "run_benchmark func lengths repeat w = Inr (table, w')"
    using benchmark_loop_world [of func lengths repeat "[]" w table w'] that
    by (simp add: run_benchmark_def)
  then show ?thesis
    using length_synthetic_row [of n] synthetic_row_bounds [of n] synthetic_row_full [of n]
    by (simp add: nth_synthetic_row)
qed

text \<open>
  The theorem at length 130 and at a benchmark of lengths 2 and 3 with two repeats.
\<close>

theorem synthetic_row_cycle_witness:
  "length (synthetic_row 130) = 130
   \<and> synthetic_row 130 ! 129 = - 63
   \<and> set (synthetic_row 130) = {-64..63}
   \<and> (\<exists>table w'. run_benchmark (\<lambda>row. Inr ()) [2, 3] 2 fresh_world = Inr (table, w')
         \<and> calls w' = [[-64, -63], [-64, -63], [-64, -63, -62], [-64, -63, -62]])"
proof -
  let ?f = "(\<lambda>row. Inr ()) :: unit callable"
  have "\<forall>n \<in> set [2, 3]. \<exists>r. ?f (synthetic_row n) = Inr r" by simp
  with benchmark_loop_runs [of 2 "[2, 3]" ?f "[]" fresh_world]
  obtain table w' where run: "run_benchmark ?f [2, 3] 2 fresh_world = Inr (table, w')"
    by (auto simp: run_benchmark_def)
  have rows: "synthetic_row 2 = [-64, -63]" "synthetic_row 3 = [-64, -63, -62]"
    by code_simp+
  from synthetic_row_cycle [of 130 ?f "[2, 3]" 2 fresh_world table w'] run
  have "length (synthetic_row 130) = 130"
    and "\<forall>i < 130. synthetic_row 130 ! i = int i mod 128 - 64"
    and "set (synthetic_row 130) = {-64..63}"
    and "calls w' = calls fresh_world
           @ concat (map (\<lambda>n. replicate (nat 2) (synthetic_row n)) [2, 3])"
    by simp_all
  moreover from this(2) have "synthetic_row 130 ! 129 = - 63" by simp
  moreover have "replicate (nat 2) x = [x, x]" for x :: "int list"
    by (simp add: numeral_2_eq_2)
  ultimately have "calls w' = [[-64, -63], [-64, -63], [-64, -63, -62], [-64, -63, -62]]"
    by (simp add: rows fresh_world_def)
  with run \<open>length (synthetic_row 130) = 130\<close> \<open>synthetic_row 130 ! 129 = - 63\<close>
    \<open>set (synthetic_row 130) = {-64..63}\<close>
  show ?thesis by blast
qed

text \<open>
  Claim C3 as stated fails: a row of 256 values, the size of the signed 8-bit range,
  contains neither 127 nor -128.
\<close>

theorem synthetic_row_range_counterexample:
  "length (synthetic_row 256) = 256
   \<and> 127 \<notin> set (synthetic_row 256)
   \<and> - 128 \<notin> set (synthetic_row 256)"
  using synthetic_row_bounds [of 256] by (auto simp: length_synthetic_row)

section \<open>The tuner: properties\<close>

lemma find_crossover_total:
  assumes "tw \<noteq> []" and "fst ` set pb = fst ` set tw"
  shows "\<exists>n. find_crossover tw pb = Inr n \<and> n \<in> fst ` set tw"
proof -
  let ?ns = "sort (map fst tw)"
  have "\<exists>r. scan_lengths tw pb ?ns = Inr r"
    by (rule scan_lengths_total) (simp_all add: assms(2))
  then obtain r where r: "scan_lengths tw pb ?ns = Inr r" ..
  show ?thesis
  proof (cases r)
    case None
    moreover have "Max (fst ` set tw) \<in> fst ` set tw"
      using assms(1) by (intro Max_in) auto
    ultimately show ?thesis using r assms(1) by (simp add: find_crossover_def py_max_def)
  next
    case (Some n)
    with r have "n \<in> set ?ns" using scan_lengths_Some_sorted [of tw pb ?ns n] by simp
    with r Some show ?thesis by (simp add: find_crossover_def)
  qed
qed

lemma sum_case_runs: "(case x of Inl e \<Rightarrow> False | Inr r \<Rightarrow> True) \<longleftrightarrow> (\<exists>r. x = Inr r)"
  by (cases x) auto

lemma runs_on_sweep_iff:
  "runs_on_sweep func \<longleftrightarrow> (\<forall>n \<in> set row_lengths. \<exists>r. func (synthetic_row n) = Inr r)"
  by (simp add: runs_on_sweep_def list_all_iff sum_case_runs)

lemma same_keys:
  assumes "map fst (tw :: timing_table) = ks" and "map fst (pb :: timing_table) = ks"
  shows "fst ` set pb = fst ` set tw"
proof -
  have "set (map fst pb) = set (map fst tw)" by (simp only: assms)
  then show ?thesis by simp
qed

lemma run_benchmark_sweep:
  assumes "run_benchmark func row_lengths 5 w = Inr (t, w')"
  shows "map fst t = row_lengths"
    and "w' = w\<lparr>ticks := ticks w + 640, calls := calls w @ sweep_calls\<rparr>"
proof -
  from assms have loop: "benchmark_loop func row_lengths 5 [] w = Inr (t, w')"
    by (simp add: run_benchmark_def)
  from benchmark_loop_keys [OF loop] show "map fst t = row_lengths"
    by (simp add: distinct_row_lengths)
  from benchmark_loop_world [OF loop]
  show "w' = w\<lparr>ticks := ticks w + 640, calls := calls w @ sweep_calls\<rparr>"
    by (simp add: length_row_lengths sweep_calls_def)
qed

lemma run_benchmark_runs:
  assumes "runs_on_sweep func"
  shows "\<exists>t w'. run_benchmark func row_lengths 5 w = Inr (t, w')"
  using benchmark_loop_runs [of 5 row_lengths func "[]" w] assms
  by (simp add: run_benchmark_def runs_on_sweep_iff)

lemma fresh_threshold_exists:
  assumes "runs_on_sweep twopass_fn" and "runs_on_sweep pebay_fn"
  shows "\<exists>th twopass pebay. fresh_threshold twopass_fn pebay_fn w th twopass pebay"
proof -
  from run_benchmark_runs [OF assms(1)] obtain twopass w1 where
    r1: "run_benchmark twopass_fn row_lengths 5 (print_line benchmark_banner w) = Inr (twopass, w1)"
    by blast
  from run_benchmark_runs [OF assms(2)] obtain pebay w2 where
    r2: "run_benchmark pebay_fn row_lengths 5 w1 = Inr (pebay, w2)"
    by blast
  have k1: "map fst twopass = row_lengths" by (rule run_benchmark_sweep(1) [OF r1])
  have k2: "map fst pebay = row_lengths" by (rule run_benchmark_sweep(1) [OF r2])
  from k1 have "twopass \<noteq> []" using row_lengths_not_Nil by auto
  moreover have "fst ` set pebay = fst ` set twopass"
    using same_keys [OF k1 k2] .
  ultimately have "\<exists>n. find_crossover twopass pebay = Inr n \<and> n \<in> fst ` set twopass"
    by (rule find_crossover_total)
  then obtain th where "find_crossover twopass pebay = Inr th" by blast
  with r1 r2 show ?thesis unfolding fresh_threshold_def by blast
qed

lemma fresh_threshold_facts:
  assumes "fresh_threshold twopass_fn pebay_fn w th twopass pebay"
  shows "map fst twopass = row_lengths" and "map fst pebay = row_lengths"
    and "th \<in> set row_lengths"
    and "benchmark_and_save twopass_fn pebay_fn sid w
           = Inr (JInt th, save_config (config_document th sid twopass pebay) (after_benchmark w))"
proof -
  from assms obtain w1 w2 where
    r1: "run_benchmark twopass_fn row_lengths 5 (print_line benchmark_banner w) = Inr (twopass, w1)"
    and r2: "run_benchmark pebay_fn row_lengths 5 w1 = Inr (pebay, w2)"
    and fc: "find_crossover twopass pebay = Inr th"
    unfolding fresh_threshold_def by blast
  show k1: "map fst twopass = row_lengths" by (rule run_benchmark_sweep(1) [OF r1])
  show k2: "map fst pebay = row_lengths" by (rule run_benchmark_sweep(1) [OF r2])
  from k1 have "twopass \<noteq> []" using row_lengths_not_Nil by auto
  moreover have "fst ` set pebay = fst ` set twopass"
    using same_keys [OF k1 k2] .
  ultimately have "\<exists>n. find_crossover twopass pebay = Inr n \<and> n \<in> fst ` set twopass"
    by (rule find_crossover_total)
  with fc have "th \<in> fst ` set twopass" by simp
  then have "th \<in> set (map fst twopass)" by simp
  then show "th \<in> set row_lengths" by (simp only: k1)
  have "w2 = after_benchmark w"
    using run_benchmark_sweep(2) [OF r1] run_benchmark_sweep(2) [OF r2]
    by (simp add: after_benchmark_def print_line_def)
  with r1 r2 fc show "benchmark_and_save twopass_fn pebay_fn sid w
           = Inr (JInt th, save_config (config_document th sid twopass pebay) (after_benchmark w))"
    by (simp add: benchmark_and_save_def)
qed

lemma benchmark_and_save_Inr:
  assumes "benchmark_and_save twopass_fn pebay_fn sid w = Inr (v, w')"
  shows "\<exists>th twopass pebay. fresh_threshold twopass_fn pebay_fn w th twopass pebay
           \<and> v = JInt th
           \<and> w' = save_config (config_document th sid twopass pebay) (after_benchmark w)"
proof -
  from assms obtain twopass w1 pebay w2 th where
    r1: "run_benchmark twopass_fn row_lengths 5 (print_line benchmark_banner w) = Inr (twopass, w1)"
    and r2: "run_benchmark pebay_fn row_lengths 5 w1 = Inr (pebay, w2)"
    and fc: "find_crossover twopass pebay = Inr th"
    by (auto simp: benchmark_and_save_def split: sum.splits)
  then have fresh: "fresh_threshold twopass_fn pebay_fn w th twopass pebay"
    unfolding fresh_threshold_def by blast
  from fresh_threshold_facts(4) [OF fresh, of sid] assms fresh show ?thesis by auto
qed

lemma cache_lookup_Some_iff:
  "cache_lookup force_retune sid f = Some v \<longleftrightarrow>
     \<not> force_retune \<and> (\<exists>kv. f = Document (JDict kv)
        \<and> map_of kv ''system_id'' = Some (JStr sid) \<and> map_of kv ''threshold'' = Some v)"
  by (cases f; cases force_retune)
     (auto simp: cache_lookup_def path_exists_def read_cache_def load_json_def
           split: json.splits option.splits if_splits)

lemma cache_lookup_None_iff:
  "cache_lookup force_retune sid f = None \<longleftrightarrow>
     force_retune \<or> \<not> (\<exists>kv v. f = Document (JDict kv)
        \<and> map_of kv ''system_id'' = Some (JStr sid) \<and> map_of kv ''threshold'' = Some v)"
proof -
  have "cache_lookup force_retune sid f = None
          \<longleftrightarrow> (\<forall>v. cache_lookup force_retune sid f \<noteq> Some v)"
    by auto
  then show ?thesis by (auto simp: cache_lookup_Some_iff)
qed

lemma get_optimal_threshold_miss:
  assumes "cache_lookup force_retune (fingerprint w) (config_file w) = None"
  shows "get_optimal_threshold twopass_fn pebay_fn force_retune w
           = benchmark_and_save twopass_fn pebay_fn (fingerprint w) w"
  using assms by (simp add: get_optimal_threshold_def system_fingerprint_def)

lemma get_optimal_threshold_hit:
  assumes "cache_lookup force_retune (fingerprint w) (config_file w) = Some v"
  shows "get_optimal_threshold twopass_fn pebay_fn force_retune w = Inr (v, w)"
  using assms by (simp add: get_optimal_threshold_def system_fingerprint_def)

lemma config_document_lookup:
  "cache_lookup False sid (Document (config_document th sid twopass pebay)) = Some (JInt th)"
  by (simp add: cache_lookup_Some_iff config_document_def)

lemma save_config_fields:
  "fingerprint (save_config doc w) = fingerprint w"
  "ticks (save_config doc w) = ticks w"
  "calls (save_config doc w) = calls w"
  "clock (save_config doc w) = clock w"
  "disk (save_config doc w) = disk w"
  by (simp_all add: save_config_def print_line_def split: write_outcome.splits)

lemma after_benchmark_fields:
  "fingerprint (after_benchmark w) = fingerprint w"
  "config_file (after_benchmark w) = config_file w"
  "disk (after_benchmark w) = disk w"
  "clock (after_benchmark w) = clock w"
  "ticks (after_benchmark w) = ticks w + 1280"
  "stdout (after_benchmark w) = stdout w @ [benchmark_banner]"
  "calls (after_benchmark w) = calls w @ sweep_calls @ sweep_calls"
  by (simp_all add: after_benchmark_def)

lemma sweep_calls_lengths:
  "map (\<lambda>row. int (length row)) sweep_calls = concat (map (replicate 5) row_lengths)"
proof -
  have "map (\<lambda>row. int (length row)) (replicate 5 (synthetic_row n)) = replicate 5 n"
    if "n \<in> set row_lengths" for n
    using that by (simp add: length_synthetic_row set_row_lengths)
  then show ?thesis
    by (simp add: sweep_calls_def map_concat cong: map_cong)
qed

lemma row_lengths_filter: "row_lengths = [n \<leftarrow> [8..2048]. (n - 8) mod 32 = 0]"
proof (rule sorted_distinct_set_unique)
  show "sorted row_lengths"
    using sorted_row_lengths by (simp add: strict_sorted_iff)
  show "distinct row_lengths" by (rule distinct_row_lengths)
  show "sorted [n \<leftarrow> [8..2048]. (n - 8) mod 32 = 0]"
    by (rule sorted_wrt_filter) (rule sorted_upto)
  show "distinct [n \<leftarrow> [8..2048]. (n - 8) mod 32 = 0]"
    by (rule distinct_filter) (rule distinct_upto)
  show "set row_lengths = set [n \<leftarrow> [8..2048]. (n - 8) mod 32 = 0]"
    unfolding set_filter set_upto set_row_lengths by auto
qed

lemma last_row_lengths: "last row_lengths = 2024"
  by (simp add: row_lengths_eq last_map)

text \<open>
  Claim C2. The sweep is the ascending list of the lengths \<open>n\<close> with \<open>8 \<le> n \<le> 2048\<close>
  that are 8 plus a multiple of 32 (sixty-four lengths; the last is 2024, the bound
  2048 itself not being 8 plus a multiple of 32). Whenever \<open>get_optimal_threshold\<close>
  does not answer from the cache (a miss or \<open>force_retune\<close>) and returns, the rows it
  handed to the callables have exactly these lengths, five times each, first for the
  two-pass callable and then for the online one, and the two timing tables it saves
  have exactly these lengths as keys, in this order.
\<close>

theorem benchmark_sweep_lengths:
  "row_lengths = [n \<leftarrow> [8..2048]. (n - 8) mod 32 = 0]
   \<and> (cache_lookup force_retune (fingerprint w) (config_file w) = None
       \<and> get_optimal_threshold twopass_fn pebay_fn force_retune w = Inr (v, w')
      \<longrightarrow> map (\<lambda>row. int (length row)) (drop (length (calls w)) (calls w'))
            = concat (map (replicate 5) row_lengths) @ concat (map (replicate 5) row_lengths)
        \<and> (disk w = WriteOk \<longrightarrow>
             (\<exists>th twopass pebay.
                config_file w' = Document (config_document th (fingerprint w) twopass pebay)
              \<and> map fst twopass = row_lengths \<and> map fst pebay = row_lengths)))"
proof -
  have "map (\<lambda>row. int (length row)) (drop (length (calls w)) (calls w'))
            = concat (map (replicate 5) row_lengths) @ concat (map (replicate 5) row_lengths)
        \<and> (disk w = WriteOk \<longrightarrow>
             (\<exists>th twopass pebay.
                config_file w' = Document (config_document th (fingerprint w) twopass pebay)
              \<and> map fst twopass = row_lengths \<and> map fst pebay = row_lengths))"
    if miss: "cache_lookup force_retune (fingerprint w) (config_file w) = None"
      and res: "get_optimal_threshold twopass_fn pebay_fn force_retune w = Inr (v, w')"
  proof -
    from res have "benchmark_and_save twopass_fn pebay_fn (fingerprint w) w = Inr (v, w')"
      by (simp only: get_optimal_threshold_miss [OF miss])
    from benchmark_and_save_Inr [OF this] obtain th twopass pebay where
      fresh: "fresh_threshold twopass_fn pebay_fn w th twopass pebay"
      and w': "w' = save_config (config_document th (fingerprint w) twopass pebay) (after_benchmark w)"
      by blast
    have "calls w' = calls w @ sweep_calls @ sweep_calls"
      by (simp add: w' save_config_fields after_benchmark_fields)
    then have a: "map (\<lambda>row. int (length row)) (drop (length (calls w)) (calls w'))
            = concat (map (replicate 5) row_lengths) @ concat (map (replicate 5) row_lengths)"
      by (simp add: sweep_calls_lengths)
    have "config_file w' = Document (config_document th (fingerprint w) twopass pebay)"
      if "disk w = WriteOk"
      using that by (simp add: w' save_config_def after_benchmark_fields)
    with fresh_threshold_facts(1,2) [OF fresh] a show ?thesis by blast
  qed
  with row_lengths_filter show ?thesis by blast
qed

lemma runs_on_sweep_const: "runs_on_sweep (\<lambda>row. Inr x)"
  by (simp add: runs_on_sweep_iff)

lemma get_optimal_threshold_fresh:
  assumes "runs_on_sweep twopass_fn" and "runs_on_sweep pebay_fn"
    and "cache_lookup force_retune (fingerprint w) (config_file w) = None"
  shows "\<exists>th twopass pebay.
           fresh_threshold twopass_fn pebay_fn w th twopass pebay
         \<and> th \<in> set row_lengths
         \<and> get_optimal_threshold twopass_fn pebay_fn force_retune w
             = Inr (JInt th,
                    save_config (config_document th (fingerprint w) twopass pebay)
                      (after_benchmark w))"
proof -
  from fresh_threshold_exists [OF assms(1,2)] obtain th twopass pebay where
    fresh: "fresh_threshold twopass_fn pebay_fn w th twopass pebay" by blast
  from fresh_threshold_facts(3,4) [OF fresh] get_optimal_threshold_miss [OF assms(3)] fresh
  show ?thesis by metis
qed




text \<open>
  Claim C5. If a call with \<open>force_retune = True\<close> returns a threshold and the disk
  takes the write, the threshold is in the cache file afterwards, and a following call
  with \<open>force_retune = False\<close>, in any world with that file and the same fingerprint,
  returns the identical threshold and leaves the world as it found it: no clock
  reading, no call of either callable (whatever they are), nothing printed.
\<close>

theorem cache_round_trip:
  assumes "get_optimal_threshold twopass_fn pebay_fn True w = Inr (v, w1)"
    and "disk w = WriteOk"
    and "config_file w2 = config_file w1"
    and "fingerprint w2 = fingerprint w"
  shows "(\<exists>th twopass pebay. v = JInt th
            \<and> config_file w1 = Document (config_document th (fingerprint w) twopass pebay))
         \<and> get_optimal_threshold twopass_fn2 pebay_fn2 False w2 = Inr (v, w2)"
proof -
  have miss: "cache_lookup True (fingerprint w) (config_file w) = None"
    by (simp add: cache_lookup_None_iff)
  from assms(1) have "benchmark_and_save twopass_fn pebay_fn (fingerprint w) w = Inr (v, w1)"
    by (simp only: get_optimal_threshold_miss [OF miss])
  from benchmark_and_save_Inr [OF this] obtain th twopass pebay where
    v: "v = JInt th"
    and w1: "w1 = save_config (config_document th (fingerprint w) twopass pebay) (after_benchmark w)"
    by blast
  have saved: "config_file w1 = Document (config_document th (fingerprint w) twopass pebay)"
    using assms(2) by (simp add: w1 save_config_def after_benchmark_fields)
  have "cache_lookup False (fingerprint w2) (config_file w2) = Some v"
    by (simp only: assms(3,4) saved v config_document_lookup)
  then have "get_optimal_threshold twopass_fn2 pebay_fn2 False w2 = Inr (v, w2)"
    by (rule get_optimal_threshold_hit)
  with v saved show ?thesis by blast
qed

text \<open>
  The theorem at the fresh world; the second call is given callables that raise when
  called, and returns all the same.
\<close>

theorem cache_round_trip_witness:
  "\<exists>v w1. get_optimal_threshold (\<lambda>row. Inr ()) (\<lambda>row. Inr ()) True fresh_world = Inr (v, w1)
      \<and> get_optimal_threshold
            ((\<lambda>row. Inl (Fault ''not called'')) :: unit callable)
            ((\<lambda>row. Inl (Fault ''not called'')) :: unit callable) False w1 = Inr (v, w1)"
proof -
  let ?f = "(\<lambda>row. Inr ()) :: unit callable"
  let ?g = "(\<lambda>row. Inl (Fault ''not called'')) :: unit callable"
  have miss: "cache_lookup True (fingerprint fresh_world) (config_file fresh_world) = None"
    by (simp add: cache_lookup_None_iff)
  from get_optimal_threshold_fresh [OF runs_on_sweep_const runs_on_sweep_const miss, of "()" "()"]
  obtain v w1 where run: "get_optimal_threshold ?f ?f True fresh_world = Inr (v, w1)"
    and fp: "fingerprint w1 = fingerprint fresh_world"
    by (auto simp: save_config_fields after_benchmark_fields)
  have d: "disk fresh_world = WriteOk" by (simp add: fresh_world_def)
  from cache_round_trip [OF run d refl fp, of ?g ?g] run show ?thesis by blast
qed



text \<open>The theorem at a forced retune in the fresh world.\<close>

theorem benchmark_sweep_lengths_witness:
  "cache_lookup True (fingerprint fresh_world) (config_file fresh_world) = None
   \<and> (\<exists>v w' th twopass pebay.
         get_optimal_threshold (\<lambda>row. Inr ()) (\<lambda>row. Inr ()) True fresh_world = Inr (v, w')
       \<and> map (\<lambda>row. int (length row)) (calls w')
           = concat (map (replicate 5) row_lengths) @ concat (map (replicate 5) row_lengths)
       \<and> config_file w' = Document (config_document th ''TEST123'' twopass pebay)
       \<and> map fst twopass = row_lengths \<and> map fst pebay = row_lengths)
   \<and> hd row_lengths = 8 \<and> last row_lengths = 2024 \<and> length row_lengths = 64"
proof -
  let ?f = "(\<lambda>row. Inr ()) :: unit callable"
  have miss: "cache_lookup True (fingerprint fresh_world) (config_file fresh_world) = None"
    by (simp add: cache_lookup_None_iff)
  from get_optimal_threshold_fresh [OF runs_on_sweep_const runs_on_sweep_const miss, of "()" "()"]
  obtain v w' where run: "get_optimal_threshold ?f ?f True fresh_world = Inr (v, w')"
    by blast
  have d: "disk fresh_world = WriteOk" "calls fresh_world = []"
    "fingerprint fresh_world = ''TEST123''"
    by (simp_all add: fresh_world_def)
  from benchmark_sweep_lengths [of True fresh_world ?f ?f v w', THEN conjunct2] miss run d
  have "map (\<lambda>row. int (length row)) (calls w')
           = concat (map (replicate 5) row_lengths) @ concat (map (replicate 5) row_lengths)"
    and "\<exists>th twopass pebay.
                config_file w' = Document (config_document th ''TEST123'' twopass pebay)
              \<and> map fst twopass = row_lengths \<and> map fst pebay = row_lengths"
    by simp_all
  moreover have "hd row_lengths = 8" by (simp add: row_lengths_eq hd_map upt_rec_numeral)
  ultimately show ?thesis
    using miss run last_row_lengths length_row_lengths by blast
qed

section \<open>The dispatcher: properties\<close>

lemma upt_4: "[0..<4] = [0, 1, 2, 3]"
  by (simp add: eval_nat_numeral)

lemma length_append_moments: "length (append_moments rs m) = length rs"
  by (simp add: append_moments_def upt_4)

lemma nth_append_moments:
  assumes "i < length rs" and "i < 4"
  shows "append_moments rs m ! i = rs ! i @ [round_half_up (moment_at m i)]"
proof -
  from assms(2) consider "i = 0" | "i = 1" | "i = 2" | "i = 3" by linarith
  then show ?thesis
    using assms(1) by cases (simp_all add: append_moments_def upt_4 nth_list_update)
qed

lemma length_tolist: "length (tolist row) = length row"
  by (simp add: tolist_def)

lemma rows_loop_Cons_Inr:
  assumes "rows_loop mc (row # data) threshold rs = Inr out"
  obtains m where "dispatch mc threshold row = Inr m"
    and "rows_loop mc data threshold (append_moments rs m) = Inr out"
  using assms by (auto simp: dispatch_def Let_def split: sum.splits)

lemma rows_loop_Inr:
  assumes "rows_loop mc data threshold rs = Inr out" and "length rs = 4"
  shows "length out = 4
       \<and> (\<forall>row \<in> set data. \<exists>m. dispatch mc threshold row = Inr m)
       \<and> (\<forall>i < 4. out ! i = rs ! i
             @ map (\<lambda>row. round_half_up (moment_at (projr (dispatch mc threshold row)) i)) data)"
  using assms
proof (induction data arbitrary: rs)
  case Nil
  then show ?case by simp
next
  case (Cons row data)
  from Cons.prems(1) obtain m where
    m: "dispatch mc threshold row = Inr m"
    and rest: "rows_loop mc data threshold (append_moments rs m) = Inr out"
    by (rule rows_loop_Cons_Inr)
  have len: "length (append_moments rs m) = 4"
    using Cons.prems(2) by (simp add: length_append_moments)
  from Cons.IH [OF rest len] have
    ih: "length out = 4"
      "\<forall>row \<in> set data. \<exists>m. dispatch mc threshold row = Inr m"
      "\<forall>i < 4. out ! i = append_moments rs m ! i
             @ map (\<lambda>row. round_half_up (moment_at (projr (dispatch mc threshold row)) i)) data"
    by blast+
  have "out ! i = rs ! i
          @ map (\<lambda>row. round_half_up (moment_at (projr (dispatch mc threshold row)) i)) (row # data)"
    if "i < 4" for i
    using that ih(3) Cons.prems(2) m by (simp add: nth_append_moments)
  moreover have "\<forall>r \<in> set (row # data). \<exists>m. dispatch mc threshold r = Inr m"
    using ih(2) m by (metis set_ConsD)
  ultimately show ?case using ih(1) by blast
qed

lemma rows_loop_runs:
  assumes "\<forall>row \<in> set data. \<exists>m. dispatch mc threshold row = Inr m"
  shows "\<exists>out. rows_loop mc data threshold rs = Inr out"
  using assms
proof (induction data arbitrary: rs)
  case Nil
  then show ?case by simp
next
  case (Cons row data)
  then obtain m where "dispatch mc threshold row = Inr m" by auto
  with Cons show ?case by (simp add: dispatch_def Let_def)
qed

lemma rows_loop_fault:
  assumes "dispatch mc threshold row = Inl e"
  shows "rows_loop mc (row # data) threshold rs = Inl e"
  using assms by (simp add: dispatch_def Let_def)

lemma compute_moment_rows_Inr:
  assumes "compute_moment_rows mc data threshold = Inr results"
  shows "length results = 4"
    and "\<forall>row \<in> set data. \<exists>m. dispatch mc threshold row = Inr m"
    and "i < 4 \<Longrightarrow> results ! i
           = map (\<lambda>row. round_half_up (moment_at (projr (dispatch mc threshold row)) i)) data"
proof -
  from assms have loop: "rows_loop mc data threshold (replicate 4 []) = Inr results"
    by (simp add: compute_moment_rows_def)
  from rows_loop_Inr [OF loop] show "length results = 4"
    and "\<forall>row \<in> set data. \<exists>m. dispatch mc threshold row = Inr m"
    by simp_all
  from rows_loop_Inr [OF loop]
  show "results ! i
           = map (\<lambda>row. round_half_up (moment_at (projr (dispatch mc threshold row)) i)) data"
    if "i < 4"
    using that by simp
qed

lemma compute_moment_rows_runs:
  assumes "\<forall>row \<in> set data. \<exists>m. dispatch mc threshold row = Inr m"
  shows "\<exists>results. compute_moment_rows mc data threshold = Inr results"
  using rows_loop_runs [OF assms] by (simp add: compute_moment_rows_def)

lemma compute_moment_rows_entry:
  assumes "compute_moment_rows mc data threshold = Inr results"
    and "i < 4" and "j < length data"
  shows "length (results ! i) = length data"
    and "\<exists>m. dispatch mc threshold (data ! j) = Inr m
           \<and> results ! i ! j = round_half_up (moment_at m i)"
proof -
  note col = compute_moment_rows_Inr(3) [OF assms(1,2)]
  show "length (results ! i) = length data" by (simp add: col)
  from compute_moment_rows_Inr(2) [OF assms(1)] assms(3)
  obtain m where m: "dispatch mc threshold (data ! j) = Inr m" by (meson nth_mem)
  with assms(3) have "results ! i ! j = round_half_up (moment_at m i)" by (simp add: col)
  with m show "\<exists>m. dispatch mc threshold (data ! j) = Inr m
           \<and> results ! i ! j = round_half_up (moment_at m i)" by blast
qed

lemma round_half_even_near: "\<bar>of_int (round_half_even y) - y\<bar> \<le> 1/2"
proof -
  define f where "f = \<lfloor>y\<rfloor>"
  define r where "r = y - of_int f"
  have r: "0 \<le> r" "r < 1" unfolding r_def f_def by linarith+
  have y: "y = of_int f + r" by (simp add: r_def)
  have "round_half_even y
          = (if r < 1/2 then f else if 1/2 < r then f + 1 else if even f then f else f + 1)"
    by (simp add: round_half_even_def Let_def f_def r_def)
  then show ?thesis using r unfolding y by (auto simp: abs_if)
qed

lemma round_half_up_cents: "round_half_up v * 100 = of_int (round_half_even (v * 100))"
  by (simp add: round_half_up_def)

lemma round_half_up_near: "\<bar>round_half_up v - v\<bar> \<le> 1/200"
proof -
  have "\<bar>round_half_up v - v\<bar> = \<bar>of_int (round_half_even (v * 100)) - v * 100\<bar> / 100"
    by (simp add: round_half_up_def abs_if field_simps)
  also have "\<dots> \<le> (1/2) / 100"
    using round_half_even_near [of "v * 100"] by (simp add: divide_right_mono)
  finally show ?thesis by simp
qed

lemma round_half_up_idem: "round_half_up (round_half_up v) = round_half_up v"
  by (simp add: round_half_up_def round_half_even_def Let_def)

lemma tagged_run_10:
  "compute_moment_rows tagged_mean [[1, 2, 3], [4, 5, 6]] 10
     = Inr [[2, 5], [1, 1], [0, 0], [0, 0]]"
  by (simp add: compute_moment_rows_def tolist_def select_algo_def tagged_mean_def
        append_moments_def upt_4 round_half_up_def round_half_even_def Let_def eval_nat_numeral)

lemma tagged_run_3:
  "compute_moment_rows tagged_mean [[1, 2, 3], [4, 5, 6]] 3
     = Inr [[2, 5], [2, 2], [0, 0], [0, 0]]"
  by (simp add: compute_moment_rows_def tolist_def select_algo_def tagged_mean_def
        append_moments_def upt_4 round_half_up_def round_half_even_def Let_def eval_nat_numeral)

lemma tagged_run_thirds:
  "compute_moment_rows tagged_mean [[1, 2, 2], [1, 0, 0]] 2
     = Inr [[167/100, 33/100], [2, 2], [0, 0], [0, 0]]"
  by (simp add: compute_moment_rows_def tolist_def select_algo_def tagged_mean_def
        append_moments_def upt_4 round_half_up_def round_half_even_def Let_def eval_nat_numeral)

lemma tagged_dispatch:
  "dispatch tagged_mean 10 [4, 5, 6] = Inr (5, 1, 0, 0)"
  "dispatch tagged_mean 3 [4, 5, 6] = Inr (5, 2, 0, 0)"
  "dispatch tagged_mean 10 [1, 2, 3] = Inr (2, 1, 0, 0)"
  "dispatch tagged_mean 2 [1, 2, 2] = Inr (5/3, 2, 0, 0)"
  "dispatch tagged_mean 2 [1, 0, 0] = Inr (1/3, 2, 0, 0)"
  by (simp_all add: dispatch_def tolist_def select_algo_def tagged_mean_def)

text \<open>
  Claim C7. For every row and every integer threshold the dispatcher selects the
  two-pass accumulator exactly when the row's length is strictly below the threshold,
  and the online (Pebay) accumulator exactly when the length is at or above it; and
  each value that \<open>compute_moment_rows\<close> returns for row \<open>j\<close> comes from a call of the
  accumulator so selected on that row.
\<close>

theorem dispatcher_selects_by_length:
  "(select_algo (tolist row) threshold = compute_moments_twopass
      \<longleftrightarrow> int (length row) < threshold)
   \<and> (select_algo (tolist row) threshold = compute_moments_pebay
      \<longleftrightarrow> threshold \<le> int (length row))
   \<and> (compute_moment_rows mc data threshold = Inr results \<and> j < length data \<and> i < 4 \<longrightarrow>
        (\<exists>m. mc (if int (length (data ! j)) < threshold then compute_moments_twopass
                 else compute_moments_pebay) (tolist (data ! j)) = Inr m
            \<and> results ! i ! j = round_half_up (moment_at m i)))"
proof -
  have "\<exists>m. mc (if int (length (data ! j)) < threshold then compute_moments_twopass
                 else compute_moments_pebay) (tolist (data ! j)) = Inr m
            \<and> results ! i ! j = round_half_up (moment_at m i)"
    if "compute_moment_rows mc data threshold = Inr results" "j < length data" "i < 4"
    using compute_moment_rows_entry(2) [OF that(1,3,2)]
    by (simp add: dispatch_def select_algo_def length_tolist)
  then show ?thesis by (auto simp: select_algo_def length_tolist)
qed

text \<open>
  The theorem at a 2-by-3 matrix: threshold 10 selects two-pass, threshold 3 selects
  the online accumulator, whose tag shows in the second sequence.
\<close>

theorem dispatcher_selects_by_length_witness:
  "select_algo (tolist [1, 2, 3]) 10 = compute_moments_twopass
   \<and> select_algo (tolist [1, 2, 3]) 3 = compute_moments_pebay
   \<and> compute_moment_rows tagged_mean [[1, 2, 3], [4, 5, 6]] 3
       = Inr [[2, 5], [2, 2], [0, 0], [0, 0]]
   \<and> tagged_mean compute_moments_pebay (tolist [4, 5, 6]) = Inr (5, 2, 0, 0)"
proof -
  have len: "int (length [1 :: int8, 2, 3]) < 10" "3 \<le> int (length [1 :: int8, 2, 3])"
    by simp_all
  from dispatcher_selects_by_length
         [where row = "[1, 2, 3]" and threshold = 10 and mc = tagged_mean
            and data = "[[1, 2, 3], [4, 5, 6]]" and results = "[[2, 5], [1, 1], [0, 0], [0, 0]]"
            and j = 1 and i = 1] len
  have a: "select_algo (tolist [1, 2, 3]) 10 = compute_moments_twopass" by simp
  from dispatcher_selects_by_length
         [where row = "[1, 2, 3]" and threshold = 3 and mc = tagged_mean
            and data = "[[1, 2, 3], [4, 5, 6]]" and results = "[[2, 5], [2, 2], [0, 0], [0, 0]]"
            and j = 1 and i = 1] len tagged_run_3
  have b: "select_algo (tolist [1, 2, 3]) 3 = compute_moments_pebay"
    and c: "\<exists>m. tagged_mean compute_moments_pebay (tolist [4, 5, 6]) = Inr m
              \<and> 2 = round_half_up (moment_at m 1)"
    by simp_all
  have "tagged_mean compute_moments_pebay (tolist [4, 5, 6]) = Inr (5, 2, 0, 0)"
    by (simp add: tagged_mean_def tolist_def)
  with a b tagged_run_3 show ?thesis by blast
qed

text \<open>
  Claim C8. If the selected accumulator returns on every row, \<open>compute_moment_rows\<close>
  returns; and whenever it returns, the result has exactly four sequences, each with
  one element per input row, the \<open>j\<close>-th element of the \<open>i\<close>-th sequence being the
  \<open>i\<close>-th moment (as \<open>round_half_up\<close> formats it) that the selected accumulator
  computed for the \<open>j\<close>-th row: rows keep their order.
\<close>

theorem compute_moment_rows_shape:
  "((\<forall>row \<in> set data. \<exists>m. dispatch mc threshold row = Inr m)
      \<longrightarrow> (\<exists>results. compute_moment_rows mc data threshold = Inr results))
   \<and> (compute_moment_rows mc data threshold = Inr results
      \<longrightarrow> length results = 4
        \<and> (\<forall>i < 4. length (results ! i) = length data
             \<and> (\<forall>j < length data. \<exists>m. dispatch mc threshold (data ! j) = Inr m
                    \<and> results ! i ! j = round_half_up (moment_at m i))))"
proof (intro conjI impI)
  assume "\<forall>row \<in> set data. \<exists>m. dispatch mc threshold row = Inr m"
  then show "\<exists>results. compute_moment_rows mc data threshold = Inr results"
    by (rule compute_moment_rows_runs)
next
  assume res: "compute_moment_rows mc data threshold = Inr results"
  then show "length results = 4" by (rule compute_moment_rows_Inr(1))
  show "\<forall>i < 4. length (results ! i) = length data
             \<and> (\<forall>j < length data. \<exists>m. dispatch mc threshold (data ! j) = Inr m
                    \<and> results ! i ! j = round_half_up (moment_at m i))"
  proof (intro allI impI conjI)
    fix i :: nat assume i: "i < 4"
    from compute_moment_rows_Inr(3) [OF res i]
    show "length (results ! i) = length data" by simp
    fix j assume "j < length data"
    with res i show "\<exists>m. dispatch mc threshold (data ! j) = Inr m
                    \<and> results ! i ! j = round_half_up (moment_at m i)"
      by (intro compute_moment_rows_entry(2))
  qed
qed

text \<open>The theorem at the 2-by-3 matrix of the repository's test, with threshold 10.\<close>

theorem compute_moment_rows_shape_witness:
  "dispatch tagged_mean 10 [1, 2, 3] = Inr (2, 1, 0, 0)
   \<and> compute_moment_rows tagged_mean [[1, 2, 3], [4, 5, 6]] 10
       = Inr [[2, 5], [1, 1], [0, 0], [0, 0]]
   \<and> length [[2, 5], [1, 1], [0, 0], [0 :: real, 0]] = 4
   \<and> length ([[2, 5], [1, 1], [0, 0], [0 :: real, 0]] ! 0) = length [[1, 2, 3], [4 :: int8, 5, 6]]
   \<and> dispatch tagged_mean 10 [4, 5, 6] = Inr (5, 1, 0, 0)
   \<and> [[2, 5], [1, 1], [0, 0], [0, 0]] ! 0 ! 1 = round_half_up (moment_at (5, 1, 0, 0) 0)"
proof -
  let ?data = "[[1, 2, 3], [4, 5, 6]] :: int8 list list"
  let ?res = "[[2, 5], [1, 1], [0, 0], [0, 0]] :: real list list"
  have ok: "\<forall>row \<in> set ?data. \<exists>m. dispatch tagged_mean 10 row = Inr m"
    using tagged_dispatch(1,3) by (metis empty_iff empty_set set_ConsD)
  note shape = compute_moment_rows_shape [of ?data tagged_mean 10 ?res]
  from shape ok have returns: "\<exists>results. compute_moment_rows tagged_mean ?data 10 = Inr results"
    by blast
  from shape tagged_run_10 have len: "length ?res = 4" by blast
  from shape tagged_run_10
  have cols: "\<forall>i < 4. length (?res ! i) = length ?data
             \<and> (\<forall>j < length ?data. \<exists>m. dispatch tagged_mean 10 (?data ! j) = Inr m
                    \<and> ?res ! i ! j = round_half_up (moment_at m i))"
    by blast
  have "(0 :: nat) < 4" by simp
  with cols have c0: "length (?res ! 0) = length ?data
             \<and> (\<forall>j < length ?data. \<exists>m. dispatch tagged_mean 10 (?data ! j) = Inr m
                    \<and> ?res ! 0 ! j = round_half_up (moment_at m 0))"
    by blast
  have "1 < length ?data" by simp
  with c0 obtain m where m: "dispatch tagged_mean 10 (?data ! 1) = Inr m"
    and r: "?res ! 0 ! 1 = round_half_up (moment_at m 0)"
    by blast
  have "?data ! 1 = [4, 5, 6]" by simp
  with m tagged_dispatch(1) have "m = (5, 1, 0, 0)" by simp
  with r have "?res ! 0 ! 1 = round_half_up (moment_at (5, 1, 0, 0) 0)" by (simp only:)
  with returns tagged_run_10 len c0 tagged_dispatch(1,3) show ?thesis by blast
qed

text \<open>
  Claim C10. Every value in the four sequences returned by \<open>compute_moment_rows\<close> is
  the moment of the selected accumulator passed through \<open>round_half_up\<close>: it is an
  integer number of hundredths, within half a hundredth of the raw moment.
\<close>

theorem output_rounded_two_decimals:
  "compute_moment_rows mc data threshold = Inr results \<and> i < 4 \<and> j < length data \<longrightarrow>
     (\<exists>m k. dispatch mc threshold (data ! j) = Inr m
          \<and> results ! i ! j = round_half_up (moment_at m i)
          \<and> results ! i ! j = of_int k / 100
          \<and> \<bar>results ! i ! j - moment_at m i\<bar> \<le> 1/200)"
proof
  assume a: "compute_moment_rows mc data threshold = Inr results \<and> i < 4 \<and> j < length data"
  then obtain m where m: "dispatch mc threshold (data ! j) = Inr m"
    and r: "results ! i ! j = round_half_up (moment_at m i)"
    using compute_moment_rows_entry(2) [of mc data threshold results i j] by blast
  have "results ! i ! j = of_int (round_half_even (moment_at m i * 100)) / 100"
    by (simp add: r round_half_up_def)
  moreover have "\<bar>results ! i ! j - moment_at m i\<bar> \<le> 1/200"
    unfolding r by (rule round_half_up_near)
  ultimately show "\<exists>m k. dispatch mc threshold (data ! j) = Inr m
          \<and> results ! i ! j = round_half_up (moment_at m i)
          \<and> results ! i ! j = of_int k / 100
          \<and> \<bar>results ! i ! j - moment_at m i\<bar> \<le> 1/200"
    using m r by blast
qed

text \<open>
  The theorem at rows with means 5/3 and 1/3: the output holds 1.67 and 0.33, not the
  raw means.
\<close>

theorem output_rounded_two_decimals_witness:
  "compute_moment_rows tagged_mean [[1, 2, 2], [1, 0, 0]] 2
     = Inr [[167/100, 33/100], [2, 2], [0, 0], [0, 0]]
   \<and> dispatch tagged_mean 2 [1, 0, 0] = Inr (1/3, 2, 0, 0)
   \<and> [[167/100, 33/100], [2, 2], [0, 0], [0, 0]] ! 0 ! 1 = round_half_up (1/3)
   \<and> round_half_up (1/3) = 33/100
   \<and> round_half_up (1/3) \<noteq> 1/3
   \<and> \<bar>[[167/100, 33/100], [2, 2], [0, 0], [0, 0]] ! 0 ! 1 - 1/3\<bar> \<le> (1/200 :: real)"
proof -
  let ?data = "[[1, 2, 2], [1, 0, 0]] :: int8 list list"
  let ?res = "[[167/100, 33/100], [2, 2], [0, 0], [0, 0]] :: real list list"
  have hyp: "compute_moment_rows tagged_mean ?data 2 = Inr ?res \<and> (0 :: nat) < 4
                \<and> 1 < length ?data"
    using tagged_run_thirds by simp
  from output_rounded_two_decimals [of tagged_mean ?data 2 ?res 0 1] hyp
  obtain m k where d: "dispatch tagged_mean 2 (?data ! 1) = Inr m"
    and r: "?res ! 0 ! 1 = round_half_up (moment_at m 0)"
    and n: "\<bar>?res ! 0 ! 1 - moment_at m 0\<bar> \<le> 1/200"
    by blast
  have "?data ! 1 = [1, 0, 0]" by simp
  with d tagged_dispatch(5) have m: "m = (1/3, 2, 0, 0)" by simp
  have m0: "moment_at m 0 = 1/3" by (simp add: m)
  from r have r': "?res ! 0 ! 1 = round_half_up (1/3)" by (simp only: m0)
  from n have n': "\<bar>?res ! 0 ! 1 - 1/3\<bar> \<le> (1/200 :: real)" by (simp only: m0)
  have v: "round_half_up (1/3) = 33/100"
    by (simp add: round_half_up_def round_half_even_def Let_def)
  then have "round_half_up (1/3) \<noteq> 1/3" by simp
  with tagged_run_thirds tagged_dispatch(5) r' n' v show ?thesis by blast
qed

end
